theory Spec2Isabelle
  imports Complex_Main "HOL-Library.Sublist"
begin

section \<open>Strings\<close>

text \<open>
  A Python \<open>str\<close> is modelled as a \<open>string\<close>: one \<open>char\<close> stands for one character
  of the Python string, and \<open>length\<close> is Python's \<open>len\<close>.
\<close>

definition len :: "string \<Rightarrow> int" where
  "len s = int (length s)"

section \<open>Width estimation: \<open>excel2pdf.py\<close>\<close>

subsection \<open>Python values held by a cell\<close>

text \<open>
  A Python \<open>float\<close> is an IEEE double: \<open>Finite neg m e\<close> is the number
  \<open>m * 2 ^ e\<close>, negated when \<open>neg\<close> holds, beside the infinities and NaN.
\<close>

datatype pyfloat = Finite bool nat int | Infinity bool | NaN

text \<open>
  What \<open>cell.value\<close> can be after \<open>load_workbook\<close>: \<open>None\<close>, a \<open>bool\<close>, an
  \<open>int\<close> (unbounded), a \<open>float\<close>, a \<open>str\<close>, or another object (a date, a time),
  of which the code only takes \<open>str(v)\<close>, carried by \<open>VOther\<close>. A float carries
  its \<open>repr\<close>, the shortest decimal text that reads back as the same double, which
  \<open>str(v)\<close> and the \<open>,\<close> format print.
\<close>

datatype pyvalue =
    VNone
  | VBool bool
  | VInt int
  | VFloat pyfloat string
  | VStr string
  | VOther string

record cell =
  cell_value :: pyvalue
  number_format :: "string option"
  column :: nat

datatype exc =
    OverflowError | ValueError | InvalidFile | OSError | RuntimeError
  | FileNotFoundError | EngineError

subsection \<open>Decimal digits and grouping\<close>

definition digit_char :: "nat \<Rightarrow> char" where
  "digit_char d = ''0123456789'' ! d"

fun digits_of :: "nat \<Rightarrow> string" where
  "digits_of n =
     (if n < 10 then [digit_char n] else digits_of (n div 10) @ [digit_char (n mod 10)])"

declare digits_of.simps [simp del]

text \<open>The \<open>,\<close> option: a comma before every group of three digits, from the right.\<close>

fun group_rev :: "string \<Rightarrow> string" where
  "group_rev (a # b # c # d # rest) = a # b # c # CHR '','' # group_rev (d # rest)"
| "group_rev ds = ds"

definition group_thousands :: "string \<Rightarrow> string" where
  "group_thousands ds = rev (group_rev (rev ds))"

definition zero_pad :: "nat \<Rightarrow> string \<Rightarrow> string" where
  "zero_pad p ds = replicate (p - length ds) CHR ''0'' @ ds"

definition sign_str :: "bool \<Rightarrow> string" where
  "sign_str neg = (if neg then ''-'' else [])"

subsection \<open>The \<open>f\<close> presentation type\<close>

text \<open>
  \<open>round_half_even n d\<close> is \<open>n / d\<close> rounded to the nearest integer, ties to even:
  the \<open>f\<close> format prints the exact binary value correctly rounded.
\<close>

definition round_half_even :: "nat \<Rightarrow> nat \<Rightarrow> nat" where
  "round_half_even n d =
     (let q = n div d; r = n mod d
      in if 2 * r > d \<or> (2 * r = d \<and> odd q) then q + 1 else q)"

text \<open>\<open>m * 2 ^ e * 10 ^ p\<close>, rounded to an integer.\<close>

definition scaled_round :: "nat \<Rightarrow> nat \<Rightarrow> int \<Rightarrow> nat" where
  "scaled_round p m e =
     (if 0 \<le> e then m * 2 ^ nat e * 10 ^ p
      else round_half_even (m * 10 ^ p) (2 ^ nat (- e)))"

definition fixed_digits :: "nat \<Rightarrow> nat \<Rightarrow> string" where
  "fixed_digits p q =
     group_thousands (digits_of (q div 10 ^ p)) @
     (if p = 0 then [] else ''.'' @ zero_pad p (digits_of (q mod 10 ^ p)))"

text \<open>\<^verbatim>\<open>f"{x:,.pf}"\<close> for a float \<open>x\<close>.\<close>

fun format_float_fixed :: "nat \<Rightarrow> pyfloat \<Rightarrow> string" where
  "format_float_fixed p (Finite neg m e) = sign_str neg @ fixed_digits p (scaled_round p m e)"
| "format_float_fixed p (Infinity neg) = sign_str neg @ ''inf''"
| "format_float_fixed p NaN = ''nan''"

fun bit_length :: "nat \<Rightarrow> nat" where
  "bit_length n = (if n = 0 then 0 else Suc (bit_length (n div 2)))"

declare bit_length.simps [simp del]

text \<open>
  An \<open>int\<close> under the \<open>f\<close> type is first converted to a float: the nearest double
  (53 significant bits, ties to even), or \<open>OverflowError\<close>
  (\<open>int too large to convert to float\<close>) when that is \<open>2 ^ 1024\<close> or more.
\<close>

definition int_to_float :: "int \<Rightarrow> exc + pyfloat" where
  "int_to_float v =
     (let a = nat \<bar>v\<bar>; n = bit_length a
      in if n \<le> 53 then Inr (Finite (v < 0) a 0)
         else let sh = n - 53; m = round_half_even a (2 ^ sh)
              in if 2 ^ 1024 \<le> m * 2 ^ sh then Inl OverflowError
                 else Inr (Finite (v < 0) m (int sh)))"

definition is_number :: "pyvalue \<Rightarrow> bool" where
  "is_number v = (case v of VBool _ \<Rightarrow> True | VInt _ \<Rightarrow> True | VFloat _ _ \<Rightarrow> True | _ \<Rightarrow> False)"

text \<open>\<^verbatim>\<open>f"{v:,.pf}"\<close> for a value with \<open>isinstance(v, (int, float))\<close>; a \<open>bool\<close> is an \<open>int\<close>.\<close>

fun format_fixed :: "nat \<Rightarrow> pyvalue \<Rightarrow> exc + string" where
  "format_fixed p (VFloat x r) = Inr (format_float_fixed p x)"
| "format_fixed p (VInt i) =
     (case int_to_float i of Inl e \<Rightarrow> Inl e | Inr x \<Rightarrow> Inr (format_float_fixed p x))"
| "format_fixed p (VBool b) =
     (case int_to_float (if b then 1 else 0) of
        Inl e \<Rightarrow> Inl e | Inr x \<Rightarrow> Inr (format_float_fixed p x))"
| "format_fixed p v = Inr []"

subsection \<open>The \<open>,\<close> format with no type, and \<open>str\<close>\<close>

definition is_digit :: "char \<Rightarrow> bool" where
  "is_digit c = (c \<in> set ''0123456789'')"

text \<open>Commas go into the integer digits of a float's \<open>repr\<close>; the rest stays.\<close>

definition group_int_part :: "string \<Rightarrow> string" where
  "group_int_part r =
     (let neg = (r \<noteq> [] \<and> hd r = CHR ''-''); body = (if neg then tl r else r)
      in sign_str neg @ group_thousands (takeWhile is_digit body) @ dropWhile is_digit body)"

text \<open>
  The decimal text of an \<open>int\<close>. Python (from 3.11) refuses to convert an \<open>int\<close> of
  more than 4300 decimal digits to text, in \<open>str\<close> and in every format alike:
  \<open>ValueError\<close> (\<open>Exceeds the limit (4300 digits) for integer string conversion\<close>).
  The sign does not count.
\<close>

definition int_text :: "int \<Rightarrow> string" where
  "int_text i = sign_str (i < 0) @ digits_of (nat \<bar>i\<bar>)"

definition too_many_digits :: "int \<Rightarrow> bool" where
  "too_many_digits i = (4300 < length (digits_of (nat \<bar>i\<bar>)))"

definition str_int :: "int \<Rightarrow> exc + string" where
  "str_int i = (if too_many_digits i then Inl ValueError else Inr (int_text i))"

text \<open>\<^verbatim>\<open>f"{v:,}"\<close> for a value with \<open>isinstance(v, (int, float))\<close>.\<close>

fun format_grouped :: "pyvalue \<Rightarrow> exc + string" where
  "format_grouped (VFloat x r) = Inr (group_int_part r)"
| "format_grouped (VInt i) =
     (if too_many_digits i then Inl ValueError
      else Inr (sign_str (i < 0) @ group_thousands (digits_of (nat \<bar>i\<bar>))))"
| "format_grouped (VBool b) = Inr (if b then ''1'' else ''0'')"
| "format_grouped v = Inr []"

text \<open>\<open>str(v)\<close>.\<close>

fun py_str :: "pyvalue \<Rightarrow> exc + string" where
  "py_str VNone = Inr ''None''"
| "py_str (VBool b) = Inr (if b then ''True'' else ''False'')"
| "py_str (VInt i) = str_int i"
| "py_str (VFloat x r) = Inr r"
| "py_str (VStr s) = Inr s"
| "py_str (VOther s) = Inr s"

text \<open>\<open>len(str(v))\<close>, which raises when \<open>str(v)\<close> does.\<close>

definition len_str :: "pyvalue \<Rightarrow> exc + int" where
  "len_str v = (case py_str v of Inl e \<Rightarrow> Inl e | Inr s \<Rightarrow> Inr (len s))"

subsection \<open>\<open>_approx_display_len\<close>\<close>

text \<open>\<open>str.lower\<close> on the letters \<open>A\<close> to \<open>Z\<close>; no other character matters to the tokens.\<close>

definition lower_char :: "char \<Rightarrow> char" where
  "lower_char c =
     (case map_of (zip ''ABCDEFGHIJKLMNOPQRSTUVWXYZ'' ''abcdefghijklmnopqrstuvwxyz'') c of
        Some d \<Rightarrow> d | None \<Rightarrow> c)"

definition lower :: "string \<Rightarrow> string" where
  "lower s = map lower_char s"

text \<open>\<^verbatim>\<open>any(tok in nf for tok in toks)\<close>: \<open>in\<close> on strings is the substring test.\<close>

definition any_tok_in :: "string list \<Rightarrow> string \<Rightarrow> bool" where
  "any_tok_in toks nf = list_ex (\<lambda>tok. sublist tok nf) toks"

definition two_decimal_tokens :: "string list" where
  "two_decimal_tokens = [''0.00'', ''#,##0.00'', ''0.0'']"

definition three_decimal_tokens :: "string list" where
  "three_decimal_tokens = [''0.000'', ''0.0000'']"

text \<open>The body of the \<open>try\<close>, for a value that is not \<open>None\<close>.\<close>

definition approx_display_len_try :: "cell \<Rightarrow> exc + int" where
  "approx_display_len_try c =
     (let v = cell_value c
      in if is_number v then
           (let nf = lower (case number_format c of None \<Rightarrow> [] | Some f \<Rightarrow> f)
            in if any_tok_in two_decimal_tokens nf then
                 (case format_fixed 2 v of Inl e \<Rightarrow> Inl e | Inr s \<Rightarrow> Inr (len s))
               else if any_tok_in three_decimal_tokens nf then
                 (case format_fixed 3 v of Inl e \<Rightarrow> Inl e | Inr s \<Rightarrow> Inr (len s))
               else (case format_grouped v of Inl e \<Rightarrow> Inl e | Inr s \<Rightarrow> Inr (len s)))
         else len_str v)"

text \<open>
  The whole function: \<open>None\<close> gives 0; an error of the \<open>try\<close> body goes to the handler,
  \<open>return len(str(v))\<close>, and an error raised there leaves the function.
\<close>

definition approx_display_len :: "cell \<Rightarrow> exc + int" where
  "approx_display_len c =
     (let v = cell_value c
      in if v = VNone then Inr 0
         else (case approx_display_len_try c of
                 Inr n \<Rightarrow> Inr n
               | Inl e \<Rightarrow> len_str v))"

text \<open>
  The spec's words for the two-decimal display of a number, read on the number itself:
  a number of magnitude \<open>q\<close>, negative when \<open>neg\<close> holds, written with thousands
  separators and exactly \<open>p\<close> decimal digits. The magnitude is rounded to the nearest
  multiple of \<open>10 ^ - p\<close>, a tie to the even one. \<open>float_value m e\<close> is the magnitude
  of the float \<open>Finite neg m e\<close>. The infinities and NaN are no numbers and have no such
  text.
\<close>

definition float_value :: "nat \<Rightarrow> int \<Rightarrow> rat" where
  "float_value m e =
     (if 0 \<le> e then of_nat m * 2 ^ nat e else of_nat m / 2 ^ nat (- e))"

definition nearest_even :: "rat \<Rightarrow> nat" where
  "nearest_even q =
     (let f = nat \<lfloor>q\<rfloor>; d = q - of_nat f
      in if 1 / 2 < d \<or> (d = 1 / 2 \<and> odd f) then f + 1 else f)"

definition spec_grouped_decimals :: "nat \<Rightarrow> bool \<Rightarrow> rat \<Rightarrow> string" where
  "spec_grouped_decimals p neg q =
     (let n = nearest_even (q * 10 ^ p)
      in sign_str neg @ group_thousands (digits_of (n div 10 ^ p)) @ ''.'' @
         zero_pad p (digits_of (n mod 10 ^ p)))"

subsection \<open>\<open>autofit_columns_openpyxl\<close>\<close>

text \<open>
  A worksheet: the rows that \<open>iter_rows\<close> yields, the widths in \<open>column_dimensions\<close>
  and the print settings. \<open>get_column_letter\<close> names the columns 1 to 18278 one to one,
  so the widths are keyed by the column index.
\<close>

record worksheet =
  rows :: "cell list list"
  column_dimensions :: "nat \<rightharpoonup> rat"
  gridLines :: bool
  headings :: bool
  fitToWidth :: int
  fitToHeight :: int
  orientation :: "string option"

text \<open>The dict \<open>lengths\<close>, in insertion order.\<close>

type_synonym lengths = "(nat \<times> int) list"

fun dict_set :: "nat \<Rightarrow> int \<Rightarrow> lengths \<Rightarrow> lengths" where
  "dict_set k v [] = [(k, v)]"
| "dict_set k v ((k', v') # ps) =
     (if k' = k then (k, v) # ps else (k', v') # dict_set k v ps)"

text \<open>The body of the inner loop: no \<open>try\<close> stands around the call of the estimator.\<close>

definition scan_cell :: "lengths \<Rightarrow> cell \<Rightarrow> exc + lengths" where
  "scan_cell ls c =
     (if cell_value c = VNone then Inr ls
      else (case approx_display_len c of
              Inl e \<Rightarrow> Inl e
            | Inr L \<Rightarrow>
                Inr (if 0 < L then
                       (if (case map_of ls (column c) of None \<Rightarrow> True | Some L0 \<Rightarrow> L0 < L)
                        then dict_set (column c) L ls else ls)
                     else ls)))"

fun scan_row :: "lengths \<Rightarrow> cell list \<Rightarrow> exc + lengths" where
  "scan_row ls [] = Inr ls"
| "scan_row ls (c # cs) =
     (case scan_cell ls c of Inl e \<Rightarrow> Inl e | Inr ls' \<Rightarrow> scan_row ls' cs)"

fun scan_rows :: "lengths \<Rightarrow> cell list list \<Rightarrow> exc + lengths" where
  "scan_rows ls [] = Inr ls"
| "scan_rows ls (r # rs) =
     (case scan_row ls r of Inl e \<Rightarrow> Inl e | Inr ls' \<Rightarrow> scan_rows ls' rs)"

definition target_width :: "int \<Rightarrow> int \<Rightarrow> int \<Rightarrow> int \<Rightarrow> int" where
  "target_width min_width padding max_width L = max min_width (min max_width (L + padding))"

fun set_widths :: "int \<Rightarrow> int \<Rightarrow> int \<Rightarrow> lengths \<Rightarrow> (nat \<rightharpoonup> rat) \<Rightarrow> (nat \<rightharpoonup> rat)" where
  "set_widths min_width padding max_width [] cd = cd"
| "set_widths min_width padding max_width ((col_idx, L) # ps) cd =
     set_widths min_width padding max_width ps
       (cd(col_idx \<mapsto> of_int (target_width min_width padding max_width L)))"

definition autofit_columns_openpyxl ::
  "worksheet \<Rightarrow> int \<Rightarrow> int \<Rightarrow> int \<Rightarrow> exc + worksheet" where
  "autofit_columns_openpyxl ws min_width padding max_width =
     (case scan_rows [] (rows ws) of
        Inl e \<Rightarrow> Inl e
      | Inr ls \<Rightarrow>
          Inr (ws\<lparr>column_dimensions :=
                    set_widths min_width padding max_width ls (column_dimensions ws)\<rparr>))"

text \<open>
  The estimated lengths that count for a column: those of its cells with a value, when
  positive. \<open>est c\<close> is the estimate of a cell for which \<open>_approx_display_len\<close>
  returns (and 0 for one where it raises, which the pass never reaches past).
\<close>

definition est :: "cell \<Rightarrow> int" where
  "est c = (case approx_display_len c of Inr L \<Rightarrow> L | Inl e \<Rightarrow> 0)"

definition column_lengths :: "cell list \<Rightarrow> nat \<Rightarrow> int list" where
  "column_lengths cs k =
     map est (filter (\<lambda>c. column c = k \<and> cell_value c \<noteq> VNone \<and> 0 < est c) cs)"


text \<open>A cell whose value is not an \<open>int\<close> of more than 4300 digits: \<open>str(v)\<close> returns.\<close>

definition convertible :: "cell \<Rightarrow> bool" where
  "convertible c = (case cell_value c of VInt i \<Rightarrow> \<not> too_many_digits i | _ \<Rightarrow> True)"

text \<open>The entry of a column after one more length \<open>L\<close>.\<close>

definition merge_len :: "int \<Rightarrow> int option \<Rightarrow> int option" where
  "merge_len L m = (case m of None \<Rightarrow> Some L | Some L0 \<Rightarrow> Some (max L0 L))"

subsection \<open>\<open>ensure_print_settings\<close>\<close>

text \<open>
  A \<open>Path\<close> is a directory and a final component, its \<open>name\<close>. At a path the file
  system has a regular file or a symbolic link to another path. A regular file holds a
  workbook that \<open>load_workbook\<close> reads, or something it refuses (a legacy \<open>.xls\<close> file,
  a damaged or truncated archive).
\<close>

record path =
  parent :: string
  filename :: string

type_synonym workbook = "worksheet list"

datatype content = Workbook workbook | Unreadable

datatype node = Regular content | Symlink path

text \<open>
  What happens when \<open>wb.save\<close> runs is not in the program: the save ends; or opening
  the target for writing raises and nothing is written; or a later step raises, which
  leaves the target truncated and temporary files of the writer behind, under fresh
  names.
\<close>

datatype save_outcome = SaveEnds | OpenRaises exc | WriteRaises exc "path list"

record filesystem =
  files :: "path \<rightharpoonup> node"
  on_save :: save_outcome

text \<open>Opening a path follows symbolic links, up to 40 of them.\<close>

fun resolve :: "nat \<Rightarrow> (path \<rightharpoonup> node) \<Rightarrow> path \<Rightarrow> path option" where
  "resolve 0 fl p = None"
| "resolve (Suc n) fl p =
     (case fl p of Some (Symlink q) \<Rightarrow> resolve n fl q | _ \<Rightarrow> Some p)"

definition load_workbook :: "filesystem \<Rightarrow> path \<Rightarrow> exc + workbook" where
  "load_workbook fs p =
     (case resolve 41 (files fs) p of
        None \<Rightarrow> Inl OSError
      | Some q \<Rightarrow>
          (case files fs q of
             Some (Regular (Workbook wb)) \<Rightarrow> Inr wb
           | _ \<Rightarrow> Inl InvalidFile))"

text \<open>
  \<open>wb.save(p)\<close>: the result, and the file system after it. The file written is the one
  the path leads to.
\<close>

definition save_workbook :: "filesystem \<Rightarrow> path \<Rightarrow> workbook \<Rightarrow> (exc + unit) \<times> filesystem" where
  "save_workbook fs p wb =
     (case resolve 41 (files fs) p of
        None \<Rightarrow> (Inl OSError, fs)
      | Some q \<Rightarrow>
          (case on_save fs of
             SaveEnds \<Rightarrow> (Inr (), fs\<lparr>files := (files fs)(q \<mapsto> Regular (Workbook wb))\<rparr>)
           | OpenRaises e \<Rightarrow> (Inl e, fs)
           | WriteRaises e strays \<Rightarrow>
               (Inl e,
                fs\<lparr>files := (\<lambda>x. if x = q then Some (Regular Unreadable)
                                   else if x \<in> set strays \<and> files fs x = None
                                        then Some (Regular Unreadable)
                                        else files fs x)\<rparr>)))"

text \<open>\<open>name.rfind('.')\<close>: the index of the last dot, or \<open>-1\<close>.\<close>

definition rfind_dot :: "string \<Rightarrow> int" where
  "rfind_dot nm =
     (if CHR ''.'' \<in> set nm
      then int (length nm) - 1 - int (length (takeWhile (\<lambda>c. c \<noteq> CHR ''.'') (rev nm)))
      else - 1)"

text \<open>\<open>PurePath.stem\<close>.\<close>

definition stem :: "string \<Rightarrow> string" where
  "stem nm =
     (let i = rfind_dot nm
      in if 0 < i \<and> i < int (length nm) - 1 then take (nat i) nm else nm)"

text \<open>The body of the loop over \<open>wb.worksheets\<close>.\<close>

definition prepare_sheet :: "bool \<Rightarrow> int \<Rightarrow> worksheet \<Rightarrow> worksheet" where
  "prepare_sheet landscape fitwide ws =
     (let ws1 = (case autofit_columns_openpyxl ws 8 2 120 of
                   Inl e \<Rightarrow> ws | Inr ws' \<Rightarrow> ws')
      in ws1\<lparr>gridLines := True, headings := True,
             fitToWidth := max 1 fitwide, fitToHeight := 0,
             orientation := Some (if landscape then ''landscape'' else ''portrait'')\<rparr>)"

definition print_ready_path :: "string \<Rightarrow> path \<Rightarrow> path" where
  "print_ready_path tmpdir xlsx_path =
     \<lparr>parent = tmpdir, filename = stem (filename xlsx_path) @ ''_print_ready.xlsx''\<rparr>"

text \<open>
  \<open>tmpdir\<close> is \<open>tempfile.gettempdir()\<close>. The result is what the call returns or raises,
  with the file system after it.
\<close>

definition ensure_print_settings ::
  "filesystem \<Rightarrow> string \<Rightarrow> path \<Rightarrow> bool \<Rightarrow> int \<Rightarrow> (exc + path) \<times> filesystem" where
  "ensure_print_settings fs tmpdir xlsx_path landscape fitwide =
     (case load_workbook fs xlsx_path of
        Inl e \<Rightarrow> (Inl e, fs)
      | Inr wb \<Rightarrow>
          (let wb' = map (prepare_sheet landscape fitwide) wb;
               tmp = print_ready_path tmpdir xlsx_path
           in case save_workbook fs tmp wb' of
                (Inl e, fs') \<Rightarrow> (Inl e, fs')
              | (Inr u, fs') \<Rightarrow> (Inr tmp, fs')))"

subsection \<open>The two exporters and \<open>convert_one\<close>\<close>

text \<open>
  What the outside world does when an exporter runs is not in the program: it is an
  outcome, given for the prepared file and the output path. With xlwings, the import
  fails, or a call raises, or the PDF is written. With LibreOffice, the process or the
  rename raises, or they end and \<open>pdf_path.exists()\<close> is read.
\<close>

datatype xl_outcome = XlImportFails | XlRaises | XlExported

datatype lo_outcome = LoRaises | LoEnds bool

record world =
  excel :: "path \<Rightarrow> path \<Rightarrow> xl_outcome"
  libreoffice :: "path \<Rightarrow> path \<Rightarrow> lo_outcome"

definition try_export_with_excel_via_xlwings :: "world \<Rightarrow> path \<Rightarrow> path \<Rightarrow> bool" where
  "try_export_with_excel_via_xlwings w xlsx_path pdf_path =
     (case excel w xlsx_path pdf_path of
        XlImportFails \<Rightarrow> False | XlRaises \<Rightarrow> False | XlExported \<Rightarrow> True)"

definition try_export_with_libreoffice :: "world \<Rightarrow> path \<Rightarrow> path \<Rightarrow> bool" where
  "try_export_with_libreoffice w xlsx_path pdf_path =
     (case libreoffice w xlsx_path pdf_path of LoRaises \<Rightarrow> False | LoEnds b \<Rightarrow> b)"

text \<open>The steps of \<open>convert_one\<close> that were started, in order.\<close>

datatype step = Prepare | RendererA path | RendererB path

definition convert_one ::
  "world \<Rightarrow> filesystem \<Rightarrow> string \<Rightarrow> path \<Rightarrow> path \<Rightarrow> bool \<Rightarrow> int
     \<Rightarrow> (exc + unit) \<times> step list" where
  "convert_one w fs tmpdir xlsx out_pdf landscape fitwide =
     (case fst (ensure_print_settings fs tmpdir xlsx landscape fitwide) of
        Inl e \<Rightarrow> (Inl e, [Prepare])
      | Inr prepared \<Rightarrow>
          (if try_export_with_excel_via_xlwings w prepared out_pdf
           then (Inr (), [Prepare, RendererA prepared])
           else if try_export_with_libreoffice w prepared out_pdf
           then (Inr (), [Prepare, RendererA prepared, RendererB prepared])
           else (Inl RuntimeError, [Prepare, RendererA prepared, RendererB prepared])))"

section \<open>Per-sheet export: \<open>excel_to_pdf/converter.py\<close>\<close>

subsection \<open>\<open>safe_name\<close>\<close>

text \<open>
  \<^verbatim>\<open>ILLEGAL = r'[<>:"/\\|?*]'\<close> is a character class: the nine characters
  \<open>< > : " / \ | ? *\<close> (the doubled backslash of the raw string is the regular
  expression's escape for one backslash).
\<close>

definition ILLEGAL :: "char set" where
  "ILLEGAL = {CHR ''<'', CHR ''>'', CHR '':'', CHR 0x22, CHR ''/'', CHR 0x5C,
              CHR ''|'', CHR ''?'', CHR ''*''}"

text \<open>
  \<^verbatim>\<open>ILLEGAL_RE.sub(replacement, name)\<close> scans \<open>name\<close> from the left and puts the
  replacement in the place of every match of the class, which is one character long.
  The replacement is a plain string here: \<open>re.sub\<close> reads backslash escapes in it, and
  every caller in the repository uses the default \<open>"_"\<close>.
\<close>

fun ILLEGAL_RE_sub :: "string \<Rightarrow> string \<Rightarrow> string" where
  "ILLEGAL_RE_sub replacement [] = []"
| "ILLEGAL_RE_sub replacement (c # cs) =
     (if c \<in> ILLEGAL then replacement @ ILLEGAL_RE_sub replacement cs
      else c # ILLEGAL_RE_sub replacement cs)"

definition safe_name_with :: "string \<Rightarrow> string \<Rightarrow> string" where
  "safe_name_with name replacement = ILLEGAL_RE_sub replacement name"

definition safe_name :: "string \<Rightarrow> string" where
  "safe_name name = safe_name_with name ''_''"

subsection \<open>\<open>export_workbook_sheets_to_pdf\<close>\<close>







section \<open>Properties of \<open>safe_name\<close>\<close>

lemma safe_name_map:
  "safe_name name = map (\<lambda>c. if c \<in> ILLEGAL then CHR ''_'' else c) name"
  by (induction name) (simp_all add: safe_name_def safe_name_with_def)

text \<open>
  Claim C9. For every input string, \<open>safe_name\<close> (with the default replacement) puts
  \<open>_\<close> at each position that holds one of \<open>< > : " / \ | ? *\<close> and leaves every other
  position as it is, so the output is as long as the input; \<open>a/b:c\<close> becomes \<open>a_b_c\<close>.
\<close>

theorem safe_name_replaces_illegal:
  "length (safe_name name) = length name
   \<and> (\<forall>i < length name.
        safe_name name ! i =
          (if name ! i \<in> {CHR ''<'', CHR ''>'', CHR '':'', CHR 0x22, CHR ''/'', CHR 0x5C,
                           CHR ''|'', CHR ''?'', CHR ''*''}
           then CHR ''_'' else name ! i))
   \<and> safe_name ''a/b:c'' = ''a_b_c''"
proof -
  have len: "length (safe_name name) = length name"
    by (simp add: safe_name_map)
  have pos: "\<forall>i < length name.
        safe_name name ! i =
          (if name ! i \<in> {CHR ''<'', CHR ''>'', CHR '':'', CHR 0x22, CHR ''/'', CHR 0x5C,
                           CHR ''|'', CHR ''?'', CHR ''*''}
           then CHR ''_'' else name ! i)"
    by (simp add: safe_name_map ILLEGAL_def)
  have ex: "safe_name ''a/b:c'' = ''a_b_c''"
    by (simp add: safe_name_def safe_name_with_def ILLEGAL_def)
  from len pos ex show ?thesis by blast
qed

theorem safe_name_replaces_illegal_witness:
  "length (safe_name ''q?.pdf'') = 6
   \<and> safe_name ''q?.pdf'' ! 1 = CHR ''_''
   \<and> safe_name ''q?.pdf'' ! 0 = CHR ''q''"
proof -
  have "length (safe_name ''q?.pdf'') = length ''q?.pdf''"
    and "\<forall>i < length ''q?.pdf''.
        safe_name ''q?.pdf'' ! i =
          (if ''q?.pdf'' ! i \<in> {CHR ''<'', CHR ''>'', CHR '':'', CHR 0x22, CHR ''/'', CHR 0x5C,
                           CHR ''|'', CHR ''?'', CHR ''*''}
           then CHR ''_'' else ''q?.pdf'' ! i)"
    using safe_name_replaces_illegal [of "''q?.pdf''"] by blast+
  then show ?thesis by simp
qed

section \<open>Properties of the width estimator\<close>

lemma bit_length_upper: "n < 2 ^ bit_length n"
proof (induction n rule: bit_length.induct)
  case (1 n)
  show ?case
  proof (cases "n = 0")
    case True
    then show ?thesis by (simp add: bit_length.simps)
  next
    case False
    with 1 have "n div 2 < 2 ^ bit_length (n div 2)" by simp
    then have "n < 2 * 2 ^ bit_length (n div 2)" by linarith
    with False show ?thesis by (simp add: bit_length.simps [of n])
  qed
qed

lemma bit_length_lower: "0 < n \<Longrightarrow> 2 ^ (bit_length n - 1) \<le> n"
proof (induction n rule: bit_length.induct)
  case (1 n)
  show ?case
  proof (cases "n div 2 = 0")
    case True
    with 1(2) have "n = 1" by linarith
    then show ?thesis by (simp add: bit_length.simps)
  next
    case False
    with 1 have ih: "2 ^ (bit_length (n div 2) - 1) \<le> n div 2" by simp
    from False have pos: "0 < bit_length (n div 2)" by (simp add: bit_length.simps [of "n div 2"])
    have "bit_length n = Suc (bit_length (n div 2))"
      using 1(2) by (simp add: bit_length.simps [of n])
    then have "bit_length n - 1 = Suc (bit_length (n div 2) - 1)" using pos by simp
    then have "(2::nat) ^ (bit_length n - 1) = 2 * 2 ^ (bit_length (n div 2) - 1)" by simp
    with ih show ?thesis by linarith
  qed
qed

lemma round_half_even_ge: "n div d \<le> round_half_even n d"
  by (simp add: round_half_even_def Let_def)

lemma int_to_float_overflow:
  assumes "2 ^ 1024 \<le> \<bar>v\<bar>"
  shows "int_to_float v = Inl OverflowError"
proof -
  define a where "a = nat \<bar>v\<bar>"
  define n where "n = bit_length a"
  define sh where "sh = n - 53"
  have a: "(2::nat) ^ 1024 \<le> a"
  proof -
    have "int ((2::nat) ^ 1024) \<le> \<bar>v\<bar>" using assms by simp
    then show ?thesis unfolding a_def by linarith
  qed
  have "a < 2 ^ n" unfolding n_def by (rule bit_length_upper)
  with a have "(2::nat) ^ 1024 < 2 ^ n" by linarith
  then have n: "1024 < n" by (simp only: power_strict_increasing_iff one_less_numeral_iff semiring_norm)
  then have n53: "\<not> n \<le> 53" by simp
  have apos: "0 < a" using a by (metis less_le_trans zero_less_numeral zero_less_power)
  have low: "2 ^ (n - 1) \<le> a" unfolding n_def using apos by (rule bit_length_lower)
  have split: "n - 1 = 52 + sh" unfolding sh_def using n by simp
  have "(2::nat) ^ 52 * 2 ^ sh \<le> a" using low by (simp only: split power_add)
  then have "(2::nat) ^ 52 \<le> a div 2 ^ sh"
    by (metis div_le_mono div_mult_self_is_m zero_less_numeral zero_less_power)
  then have "(2::nat) ^ 52 \<le> round_half_even a (2 ^ sh)"
    using round_half_even_ge [of a "2 ^ sh"] by (rule order_trans)
  then have "(2::nat) ^ 52 * 2 ^ sh \<le> round_half_even a (2 ^ sh) * 2 ^ sh"
    by (rule mult_le_mono1)
  moreover have "(2::nat) ^ 1024 \<le> 2 ^ (n - 1)"
    using n by (intro power_increasing) simp_all
  ultimately have big: "(2::nat) ^ 1024 \<le> round_half_even a (2 ^ sh) * 2 ^ sh"
    by (simp only: split power_add)
  show ?thesis
    unfolding int_to_float_def Let_def a_def [symmetric] n_def [symmetric] sh_def [symmetric]
    using n53 big by (simp only: if_False if_True)
qed

lemma lower_token:
  "tok \<in> set two_decimal_tokens \<union> set three_decimal_tokens \<Longrightarrow> lower tok = tok"
  by (auto simp: two_decimal_tokens_def three_decimal_tokens_def lower_def lower_char_def)

lemma sublist_lower:
  assumes "sublist tok nf" and "lower tok = tok"
  shows "sublist tok (lower nf)"
proof -
  from assms(1) have "sublist (map lower_char tok) (map lower_char nf)"
    by (rule map_mono_sublist)
  with assms(2) show ?thesis by (simp add: lower_def)
qed

lemma any_tok_in_lower:
  assumes "\<exists>tok \<in> set two_decimal_tokens. sublist tok nf"
  shows "any_tok_in two_decimal_tokens (lower nf)"
proof -
  from assms obtain tok where t: "tok \<in> set two_decimal_tokens" and s: "sublist tok nf" by blast
  from t have "lower tok = tok" by (simp add: lower_token)
  with s have "sublist tok (lower nf)" by (rule sublist_lower)
  with t show ?thesis by (auto simp: any_tok_in_def list_ex_iff)
qed

lemma three_implies_two:
  assumes "any_tok_in three_decimal_tokens s"
  shows "any_tok_in two_decimal_tokens s"
proof -
  have a: "sublist ''0.0'' ''0.000''" and b: "sublist ''0.0'' ''0.0000''"
    by (simp_all add: sublist_code)
  from assms have "sublist ''0.000'' s \<or> sublist ''0.0000'' s"
    by (simp add: any_tok_in_def three_decimal_tokens_def)
  then have "sublist ''0.0'' s"
    using a b sublist_order.order_trans by blast
  then show ?thesis by (simp add: any_tok_in_def two_decimal_tokens_def)
qed

lemma bit_length_small: "a < 2 ^ 53 \<Longrightarrow> bit_length a \<le> 53"
proof (cases "a = 0")
  case True
  then show ?thesis by (simp add: bit_length.simps)
next
  case False
  assume a: "a < 2 ^ 53"
  from False have "0 < a" by simp
  then have "2 ^ (bit_length a - 1) \<le> a" by (rule bit_length_lower)
  with a have "(2::nat) ^ (bit_length a - 1) < 2 ^ 53" by linarith
  then have "bit_length a - 1 < 53"
    by (simp only: power_strict_increasing_iff one_less_numeral_iff semiring_norm)
  then show ?thesis by simp
qed

lemma int_to_float_exact:
  assumes "\<bar>i\<bar> < 2 ^ 53"
  shows "int_to_float i = Inr (Finite (i < 0) (nat \<bar>i\<bar>) 0)"
proof -
  have "nat \<bar>i\<bar> < 2 ^ 53" using assms by (simp add: nat_less_iff)
  then have "bit_length (nat \<bar>i\<bar>) \<le> 53" by (rule bit_length_small)
  then show ?thesis by (simp add: int_to_float_def Let_def)
qed

lemma group_rev_length: "length ds \<le> length (group_rev ds)"
  by (induction ds rule: group_rev.induct) simp_all

lemma group_thousands_length: "length ds \<le> length (group_thousands ds)"
  using group_rev_length [of "rev ds"] by (simp add: group_thousands_def)

lemma zero_pad_length: "p \<le> length (zero_pad p ds)"
  by (simp add: zero_pad_def)


lemma digits_of_nonempty: "digits_of n \<noteq> []"
  by (subst digits_of.simps) simp

lemma digits_length_lower: "10 ^ k \<le> n \<Longrightarrow> k < length (digits_of n)"
proof (induction k arbitrary: n)
  case 0
  from digits_of_nonempty [of n] show ?case by simp
next
  case (Suc k)
  from Suc.prems have big: "10 \<le> n"
    by (metis le_trans one_le_numeral one_le_power mult.right_neutral mult_le_mono2 power_Suc)
  from Suc.prems have "10 ^ k \<le> n div 10" by (simp add: less_eq_div_iff_mult_less_eq mult.commute)
  then have "k < length (digits_of (n div 10))" by (rule Suc.IH)
  moreover from big have "digits_of n = digits_of (n div 10) @ [digit_char (n mod 10)]"
    by (subst digits_of.simps) simp
  ultimately show ?case by simp
qed

lemma digits_length_upper: "n < 10 ^ k \<Longrightarrow> 0 < k \<Longrightarrow> length (digits_of n) \<le> k"
proof (induction k arbitrary: n)
  case 0
  then show ?case by simp
next
  case (Suc k)
  show ?case
  proof (cases "n < 10")
    case True
    then have "digits_of n = [digit_char n]" by (subst digits_of.simps) simp
    then show ?thesis by simp
  next
    case False
    then have d: "digits_of n = digits_of (n div 10) @ [digit_char (n mod 10)]"
      by (subst digits_of.simps) simp
    from Suc.prems have lt: "n div 10 < 10 ^ k" by (simp add: div_less_iff_less_mult mult.commute)
    from False Suc.prems have "0 < k" by (cases k) simp_all
    with lt have "length (digits_of (n div 10)) \<le> k" by (rule Suc.IH)
    with d show ?thesis by simp
  qed
qed

lemma pow2_le_pow10: "(2::nat) ^ 1024 \<le> 10 ^ 4300"
proof -
  have "(2::nat) ^ 1024 \<le> 10 ^ 1024" by (rule power_mono) simp_all
  also have "(10::nat) ^ 1024 \<le> 10 ^ 4300" by (rule power_increasing) simp_all
  finally show ?thesis .
qed

lemma too_many_digits_iff: "too_many_digits i \<longleftrightarrow> 10 ^ 4300 \<le> nat \<bar>i\<bar>"
proof
  assume t: "too_many_digits i"
  show "10 ^ 4300 \<le> nat \<bar>i\<bar>"
  proof (rule ccontr)
    assume "\<not> 10 ^ 4300 \<le> nat \<bar>i\<bar>"
    then have "nat \<bar>i\<bar> < 10 ^ 4300" by (simp only: not_le)
    then have "length (digits_of (nat \<bar>i\<bar>)) \<le> 4300" by (rule digits_length_upper) simp
    moreover from t have "4300 < length (digits_of (nat \<bar>i\<bar>))"
      by (simp only: too_many_digits_def)
    ultimately show False by linarith
  qed
next
  assume "10 ^ 4300 \<le> nat \<bar>i\<bar>"
  then have "4300 < length (digits_of (nat \<bar>i\<bar>))" by (rule digits_length_lower)
  then show "too_many_digits i" by (simp only: too_many_digits_def)
qed

lemma too_many_digits_overflow:
  assumes "too_many_digits i"
  shows "int_to_float i = Inl OverflowError"
proof (rule int_to_float_overflow)
  from assms have "10 ^ 4300 \<le> nat \<bar>i\<bar>" by (simp only: too_many_digits_iff)
  with pow2_le_pow10 have "(2::nat) ^ 1024 \<le> nat \<bar>i\<bar>" by (rule order_trans)
  then have "int ((2::nat) ^ 1024) \<le> \<bar>i\<bar>" by linarith
  then show "2 ^ 1024 \<le> \<bar>i\<bar>" by (simp only: of_nat_power of_nat_numeral)
qed

lemma pow2_few_digits:
  "\<not> too_many_digits (2 ^ 1024)"
  "\<not> too_many_digits (- (2 ^ 1024))"
proof -
  have "(2::nat) ^ 1024 \<le> 10 ^ 1024" by (rule power_mono) simp_all
  also have "(10::nat) ^ 1024 < 10 ^ 4300" by (rule power_strict_increasing) simp_all
  finally have lt: "(2::nat) ^ 1024 < 10 ^ 4300" .
  have a: "nat \<bar>(2::int) ^ 1024\<bar> = 2 ^ 1024" and b: "nat \<bar>- ((2::int) ^ 1024)\<bar> = 2 ^ 1024"
    by simp_all
  from lt show "\<not> too_many_digits (2 ^ 1024)"
    by (simp only: too_many_digits_iff a not_le)
  from lt show "\<not> too_many_digits (- (2 ^ 1024))"
    by (simp only: too_many_digits_iff b not_le)
qed

lemma nearest_even_of_nat: "nearest_even (of_nat k) = k"
  by (simp add: nearest_even_def)

lemma round_half_even_nearest:
  assumes "0 < d"
  shows "round_half_even n d = nearest_even (of_nat n / of_nat d)"
proof -
  let ?q = "n div d" and ?r = "n mod d"
  have fl: "nat \<lfloor>(of_nat n / of_nat d :: rat)\<rfloor> = ?q"
    by (simp add: floor_divide_of_nat_eq)
  have "(of_nat n :: rat) = of_nat ?q * of_nat d + of_nat ?r"
    by (metis div_mult_mod_eq of_nat_add of_nat_mult)
  then have fr: "(of_nat n / of_nat d :: rat) - of_nat ?q = of_nat ?r / of_nat d"
    using assms by (simp add: field_simps)
  have gt: "(1 / 2 < (of_nat ?r / of_nat d :: rat)) \<longleftrightarrow> d < 2 * ?r"
  proof -
    have "(1 / 2 < (of_nat ?r / of_nat d :: rat)) \<longleftrightarrow> (of_nat d :: rat) < of_nat (2 * ?r)"
      using assms by (simp add: field_simps)
    then show ?thesis by (simp only: of_nat_less_iff)
  qed
  have eq: "((of_nat ?r / of_nat d :: rat) = 1 / 2) \<longleftrightarrow> 2 * ?r = d"
  proof -
    have "((of_nat ?r / of_nat d :: rat) = 1 / 2) \<longleftrightarrow> (of_nat (2 * ?r) :: rat) = of_nat d"
      using assms by (auto simp: field_simps)
    then show ?thesis by (simp only: of_nat_eq_iff)
  qed
  show ?thesis
    unfolding nearest_even_def round_half_even_def Let_def fl fr gt eq by simp
qed

lemma scaled_round_nearest: "scaled_round p m e = nearest_even (float_value m e * 10 ^ p)"
proof (cases "0 \<le> e")
  case True
  have "float_value m e * 10 ^ p = of_nat (m * 2 ^ nat e * 10 ^ p)"
    using True by (simp add: float_value_def)
  then have "nearest_even (float_value m e * 10 ^ p) = m * 2 ^ nat e * 10 ^ p"
    by (simp only: nearest_even_of_nat)
  then show ?thesis using True by (simp only: scaled_round_def if_True)
next
  case False
  have "float_value m e * 10 ^ p = of_nat (m * 10 ^ p) / of_nat (2 ^ nat (- e))"
    using False by (simp add: float_value_def)
  moreover have "round_half_even (m * 10 ^ p) (2 ^ nat (- e))
      = nearest_even (of_nat (m * 10 ^ p) / of_nat (2 ^ nat (- e)))"
    by (rule round_half_even_nearest) simp
  ultimately show ?thesis using False by (simp add: scaled_round_def)
qed

lemma format_float_fixed_spec:
  "0 < p \<Longrightarrow>
   format_float_fixed p (Finite neg m e) = spec_grouped_decimals p neg (float_value m e)"
  by (simp add: spec_grouped_decimals_def fixed_digits_def scaled_round_nearest Let_def)

lemma float_value_int: "float_value a 0 = of_nat a"
  by (simp add: float_value_def)

lemma format_fixed_small_int:
  assumes "\<bar>i\<bar> < 2 ^ 53"
  shows "format_fixed 2 (VInt i) = Inr (spec_grouped_decimals 2 (i < 0) (of_int \<bar>i\<bar>))"
proof -
  have "format_fixed 2 (VInt i) = Inr (format_float_fixed 2 (Finite (i < 0) (nat \<bar>i\<bar>) 0))"
    using int_to_float_exact [OF assms] by simp
  also have "format_float_fixed 2 (Finite (i < 0) (nat \<bar>i\<bar>) 0)
      = spec_grouped_decimals 2 (i < 0) (float_value (nat \<bar>i\<bar>) 0)"
    by (rule format_float_fixed_spec) simp
  also have "float_value (nat \<bar>i\<bar>) 0 = of_int \<bar>i\<bar>"
    by (simp add: float_value_int)
  finally show ?thesis .
qed

lemma format_fixed_bool:
  "format_fixed 2 (VBool b) = Inr (spec_grouped_decimals 2 False (if b then 1 else 0))"
proof -
  have s: "\<bar>if b then 1 else 0 :: int\<bar> < 2 ^ 53" by simp
  have "format_fixed 2 (VBool b)
      = Inr (format_float_fixed 2 (Finite False (nat \<bar>if b then 1 else 0\<bar>) 0))"
    using int_to_float_exact [OF s] by simp
  also have "format_float_fixed 2 (Finite False (nat \<bar>if b then 1 else 0 :: int\<bar>) 0)
      = spec_grouped_decimals 2 False (float_value (nat \<bar>if b then 1 else 0 :: int\<bar>) 0)"
    by (rule format_float_fixed_spec) simp
  also have "float_value (nat \<bar>if b then 1 else 0 :: int\<bar>) 0 = (if b then 1 else 0)"
    by (simp add: float_value_int)
  finally show ?thesis .
qed

lemma fixed_length:
  "length (digits_of a) + 3 \<le> length (format_float_fixed 2 (Finite neg a 0))"
proof -
  have d: "a * 10 ^ 2 div 10 ^ 2 = a" by simp
  have "length (digits_of a) + 3
          \<le> length (group_thousands (digits_of a))
             + (1 + length (zero_pad 2 (digits_of (a * 10 ^ 2 mod 10 ^ 2))))"
    using group_thousands_length [of "digits_of a"]
      zero_pad_length [of 2 "digits_of (a * 10 ^ 2 mod 10 ^ 2)"] by linarith
  then show ?thesis
    unfolding format_float_fixed.simps fixed_digits_def scaled_round_def
    by (simp add: d)
qed

lemma spec_int_length:
  "len (int_text (int a)) + 3 \<le> len (spec_grouped_decimals 2 False (of_nat a))"
proof -
  have "spec_grouped_decimals 2 False (of_nat a) = format_float_fixed 2 (Finite False a 0)"
    using format_float_fixed_spec [of 2 False a 0] by (simp add: float_value_int)
  with fixed_length [of a False] show ?thesis
    by (simp add: len_def int_text_def sign_str_def)
qed

lemma len_str_int:
  "len_str (VInt i) = (if too_many_digits i then Inl ValueError else Inr (len (int_text i)))"
  by (simp add: len_str_def str_int_def)

lemma approx_two_decimals_branch:
  assumes "is_number (cell_value c)"
    and "any_tok_in two_decimal_tokens (lower (case number_format c of None \<Rightarrow> [] | Some f \<Rightarrow> f))"
  shows "approx_display_len c =
           (case format_fixed 2 (cell_value c) of
              Inr s \<Rightarrow> Inr (len s) | Inl e \<Rightarrow> len_str (cell_value c))"
proof -
  from assms(1) have nn: "cell_value c \<noteq> VNone" by (auto simp: is_number_def)
  show ?thesis
    using assms nn
    by (simp add: approx_display_len_def approx_display_len_try_def Let_def split: sum.splits)
qed

lemma example_two_decimals: "approx_display_len
     \<lparr>cell_value = VFloat (Finite False 2469 (- 1)) ''1234.5'',
      number_format = Some ''0.00'', column = 1\<rparr> = Inr 8"
  by (simp add: approx_display_len_def approx_display_len_try_def is_number_def lower_def
      lower_char_def any_tok_in_def two_decimal_tokens_def sublist_code len_def
      sign_str_def fixed_digits_def scaled_round_def round_half_even_def
      group_thousands_def zero_pad_def digits_of.simps digit_char_def)

lemma example_three_token: "approx_display_len
     \<lparr>cell_value = VFloat (Finite False 2469 (- 1)) ''1234.5'',
      number_format = Some ''0.000'', column = 1\<rparr> = Inr 8"
  by (simp add: approx_display_len_def approx_display_len_try_def is_number_def lower_def
      lower_char_def any_tok_in_def two_decimal_tokens_def sublist_code len_def
      sign_str_def fixed_digits_def scaled_round_def round_half_even_def
      group_thousands_def zero_pad_def digits_of.simps digit_char_def)

lemma example_three_decimals:
  "format_fixed 3 (VFloat (Finite False 2469 (- 1)) ''1234.5'') = Inr ''1,234.500''"
  by (simp add: sign_str_def fixed_digits_def scaled_round_def round_half_even_def
      group_thousands_def zero_pad_def digits_of.simps digit_char_def)

lemma overflow_try:
  assumes "2 ^ 1024 \<le> \<bar>i\<bar>"
    and "any_tok_in two_decimal_tokens (lower (case number_format c of None \<Rightarrow> [] | Some f \<Rightarrow> f))"
    and "cell_value c = VInt i"
  shows "approx_display_len_try c = Inl OverflowError"
  using assms(2,3) int_to_float_overflow [OF assms(1)]
  by (simp add: approx_display_len_try_def is_number_def)

lemma tok_000: "any_tok_in two_decimal_tokens (lower ''0.00'')"
  by (simp add: any_tok_in_def two_decimal_tokens_def lower_def lower_char_def sublist_code)

lemma big_try:
  "approx_display_len_try
     \<lparr>cell_value = VInt (2 ^ 1024), number_format = Some ''0.00'', column = 1\<rparr> = Inl OverflowError"
proof (rule overflow_try)
  show "(2::int) ^ 1024 \<le> \<bar>2 ^ 1024\<bar>" by simp
  show "any_tok_in two_decimal_tokens
     (lower (case number_format \<lparr>cell_value = VInt (2 ^ 1024), number_format = Some ''0.00'', column = 1\<rparr> of
               None \<Rightarrow> [] | Some f \<Rightarrow> f))"
    using tok_000 by simp
  show "cell_value \<lparr>cell_value = VInt (2 ^ 1024), number_format = Some ''0.00'', column = 1\<rparr> = VInt (2 ^ 1024)"
    by simp
qed

lemma big_len:
  "approx_display_len
     \<lparr>cell_value = VInt (2 ^ 1024), number_format = Some ''0.00'', column = 1\<rparr>
     = Inr (len (int_text (2 ^ 1024)))"
  using big_try pow2_few_digits(1) by (simp add: approx_display_len_def len_str_int)

lemma try_nonneg: "approx_display_len_try c = Inr n \<Longrightarrow> 0 \<le> n"
  by (auto simp: approx_display_len_try_def Let_def len_def len_str_def
      split: if_splits sum.splits)

lemma len_str_nonneg: "len_str v = Inr n \<Longrightarrow> 0 \<le> n"
  by (auto simp: len_str_def len_def split: sum.splits)

lemma len_str_total:
  assumes "\<forall>i. v = VInt i \<longrightarrow> \<not> too_many_digits i"
  shows "\<exists>s. py_str v = Inr s \<and> len_str v = Inr (len s)"
  using assms by (cases v) (simp_all add: len_str_def str_int_def)

lemma too_many_digits_raises:
  assumes "cell_value c = VInt i" and "too_many_digits i"
  shows "approx_display_len c = Inl ValueError"
proof -
  have t: "\<exists>e. approx_display_len_try c = Inl e"
    using assms too_many_digits_overflow [OF assms(2)]
    by (simp add: approx_display_len_try_def is_number_def Let_def)
  from assms have "len_str (cell_value c) = Inl ValueError" by (simp add: len_str_int)
  with t assms(1) show ?thesis by (auto simp: approx_display_len_def)
qed

lemma approx_display_len_returns:
  assumes "\<forall>i. cell_value c = VInt i \<longrightarrow> \<not> too_many_digits i"
  shows "\<exists>n. approx_display_len c = Inr n \<and> 0 \<le> n"
proof (cases "cell_value c = VNone")
  case True
  then show ?thesis by (simp add: approx_display_len_def)
next
  case False
  show ?thesis
  proof (cases "approx_display_len_try c")
    case (Inr n)
    then have "0 \<le> n" by (rule try_nonneg)
    with Inr False show ?thesis by (simp add: approx_display_len_def)
  next
    case (Inl e)
    from len_str_total [OF assms] obtain s where "len_str (cell_value c) = Inr (len s)" by blast
    with Inl False show ?thesis by (simp add: approx_display_len_def len_def)
  qed
qed

lemma too_many_digits_int: "too_many_digits i \<longleftrightarrow> 10 ^ 4300 \<le> \<bar>i\<bar>"
proof -
  have "(10 ^ 4300 \<le> nat \<bar>i\<bar>) \<longleftrightarrow> (int (10 ^ 4300) \<le> \<bar>i\<bar>)" by linarith
  then show ?thesis by (simp only: too_many_digits_iff of_nat_power of_nat_numeral)
qed


text \<open>
  Claim C1, as stated, at the integer \<open>2 ^ 1024\<close> with the format \<open>0.00\<close>: the \<open>f\<close> format
  raises \<open>OverflowError\<close>, the handler returns the number of digits, and that is not the
  length of the value written with thousands separators and two decimal digits.
\<close>

theorem approx_two_decimals_counterexample:
  "approx_display_len
     \<lparr>cell_value = VInt (2 ^ 1024), number_format = Some ''0.00'', column = 1\<rparr>
   \<noteq> Inr (len (spec_grouped_decimals 2 False (2 ^ 1024)))"
proof -
  have "len (int_text (int (2 ^ 1024))) + 3
          \<le> len (spec_grouped_decimals 2 False (of_nat (2 ^ 1024)))"
    by (rule spec_int_length)
  then have "len (int_text (2 ^ 1024)) + 3 \<le> len (spec_grouped_decimals 2 False (2 ^ 1024))"
    by (simp only: of_nat_power of_nat_numeral)
  then have "len (int_text (2 ^ 1024)) \<noteq> len (spec_grouped_decimals 2 False (2 ^ 1024))"
    by linarith
  with big_len show ?thesis by simp
qed

text \<open>
  Claim C1, amended. For a numeric cell value and a format descriptor that contains one
  of the tokens \<open>0.00\<close>, \<open>#,##0.00\<close>, \<open>0.0\<close>, \<open>_approx_display_len\<close> returns the length of
  the value written with thousands separators and exactly two decimal digits when the
  value is a finite float, a \<open>bool\<close>, or an \<open>int\<close> below \<open>2 ^ 53\<close> in absolute value; a
  larger \<open>int\<close> that converts to a float is written as the nearest double. For an
  infinity or NaN the result is the length of \<open>inf\<close>, \<open>-inf\<close> or \<open>nan\<close>. For an \<open>int\<close>
  that does not convert to a float (every one from \<open>2 ^ 1024\<close> on) and has no more
  than 4300 digits (is below \<open>10 ^ 4300\<close> in absolute value) the result is the length
  of \<open>str(v)\<close>. The value 1234.5 with the format \<open>0.00\<close> gives 8.
\<close>

theorem approx_two_decimals:
  "(is_number (cell_value c) \<longrightarrow> number_format c = Some nf \<longrightarrow>
      (\<exists>tok \<in> set [''0.00'', ''#,##0.00'', ''0.0'']. sublist tok nf) \<longrightarrow>
        (\<forall>neg m e r. cell_value c = VFloat (Finite neg m e) r \<longrightarrow>
            approx_display_len c = Inr (len (spec_grouped_decimals 2 neg (float_value m e))))
        \<and> (\<forall>neg r. cell_value c = VFloat (Infinity neg) r \<longrightarrow>
              approx_display_len c = Inr (len (sign_str neg @ ''inf'')))
        \<and> (\<forall>r. cell_value c = VFloat NaN r \<longrightarrow> approx_display_len c = Inr (len ''nan''))
        \<and> (\<forall>b. cell_value c = VBool b \<longrightarrow>
              approx_display_len c =
                Inr (len (spec_grouped_decimals 2 False (if b then 1 else 0))))
        \<and> (\<forall>i. cell_value c = VInt i \<longrightarrow> \<bar>i\<bar> < 2 ^ 53 \<longrightarrow>
              approx_display_len c =
                Inr (len (spec_grouped_decimals 2 (i < 0) (of_int \<bar>i\<bar>))))
        \<and> (\<forall>i neg m e. cell_value c = VInt i \<longrightarrow> int_to_float i = Inr (Finite neg m e) \<longrightarrow>
              approx_display_len c = Inr (len (spec_grouped_decimals 2 neg (float_value m e))))
        \<and> (\<forall>i e. cell_value c = VInt i \<longrightarrow> int_to_float i = Inl e \<longrightarrow>
              \<not> too_many_digits i \<longrightarrow> approx_display_len c = Inr (len (int_text i))))
   \<and> (\<forall>i. 2 ^ 1024 \<le> \<bar>i\<bar> \<longrightarrow> int_to_float i = Inl OverflowError)
   \<and> (\<forall>i. too_many_digits i \<longleftrightarrow> 10 ^ 4300 \<le> \<bar>i\<bar>)
   \<and> approx_display_len
       \<lparr>cell_value = VFloat (Finite False 2469 (- 1)) ''1234.5'',
        number_format = Some ''0.00'', column = 1\<rparr> = Inr 8"
proof (intro conjI impI)
  assume num: "is_number (cell_value c)" and nf: "number_format c = Some nf"
    and tok: "\<exists>tok \<in> set [''0.00'', ''#,##0.00'', ''0.0'']. sublist tok nf"
  from tok have "any_tok_in two_decimal_tokens (lower nf)"
    by (intro any_tok_in_lower) (simp add: two_decimal_tokens_def)
  with nf have t: "any_tok_in two_decimal_tokens
      (lower (case number_format c of None \<Rightarrow> [] | Some f \<Rightarrow> f))" by simp
  from num t have main: "approx_display_len c =
      (case format_fixed 2 (cell_value c) of
         Inr s \<Rightarrow> Inr (len s) | Inl e \<Rightarrow> len_str (cell_value c))"
    by (rule approx_two_decimals_branch)
  show "\<forall>neg m e r. cell_value c = VFloat (Finite neg m e) r \<longrightarrow>
      approx_display_len c = Inr (len (spec_grouped_decimals 2 neg (float_value m e)))"
  proof (intro allI impI)
    fix neg m e r assume v: "cell_value c = VFloat (Finite neg m e) r"
    have "format_float_fixed 2 (Finite neg m e) = spec_grouped_decimals 2 neg (float_value m e)"
      by (rule format_float_fixed_spec) simp
    with main v show "approx_display_len c
        = Inr (len (spec_grouped_decimals 2 neg (float_value m e)))"
      by (simp del: format_float_fixed.simps)
  qed
  show "\<forall>neg r. cell_value c = VFloat (Infinity neg) r \<longrightarrow>
      approx_display_len c = Inr (len (sign_str neg @ ''inf''))"
    using main by simp
  show "\<forall>r. cell_value c = VFloat NaN r \<longrightarrow> approx_display_len c = Inr (len ''nan'')"
    using main by simp
  show "\<forall>b. cell_value c = VBool b \<longrightarrow>
      approx_display_len c = Inr (len (spec_grouped_decimals 2 False (if b then 1 else 0)))"
  proof (intro allI impI)
    fix b assume v: "cell_value c = VBool b"
    from main v format_fixed_bool [of b]
    show "approx_display_len c
        = Inr (len (spec_grouped_decimals 2 False (if b then 1 else 0)))"
      by (simp only: sum.case)
  qed
  show "\<forall>i. cell_value c = VInt i \<longrightarrow> \<bar>i\<bar> < 2 ^ 53 \<longrightarrow>
      approx_display_len c = Inr (len (spec_grouped_decimals 2 (i < 0) (of_int \<bar>i\<bar>)))"
  proof (intro allI impI)
    fix i assume v: "cell_value c = VInt i" and small: "\<bar>i\<bar> < 2 ^ 53"
    from small have "format_fixed 2 (VInt i)
        = Inr (spec_grouped_decimals 2 (i < 0) (of_int \<bar>i\<bar>))"
      by (rule format_fixed_small_int)
    with main v show "approx_display_len c
        = Inr (len (spec_grouped_decimals 2 (i < 0) (of_int \<bar>i\<bar>)))"
      by (simp only: sum.case)
  qed
  show "\<forall>i neg m e. cell_value c = VInt i \<longrightarrow> int_to_float i = Inr (Finite neg m e) \<longrightarrow>
      approx_display_len c = Inr (len (spec_grouped_decimals 2 neg (float_value m e)))"
  proof (intro allI impI)
    fix i neg m e
    assume v: "cell_value c = VInt i" and f: "int_to_float i = Inr (Finite neg m e)"
    have "format_float_fixed 2 (Finite neg m e) = spec_grouped_decimals 2 neg (float_value m e)"
      by (rule format_float_fixed_spec) simp
    with main v f show "approx_display_len c
        = Inr (len (spec_grouped_decimals 2 neg (float_value m e)))"
      by (simp del: format_float_fixed.simps)
  qed
  show "\<forall>i e. cell_value c = VInt i \<longrightarrow> int_to_float i = Inl e \<longrightarrow>
      \<not> too_many_digits i \<longrightarrow> approx_display_len c = Inr (len (int_text i))"
    using main by (simp add: len_str_int)
next
  show "\<forall>i. 2 ^ 1024 \<le> \<bar>i\<bar> \<longrightarrow> int_to_float i = Inl OverflowError"
    using int_to_float_overflow by blast
next
  show "\<forall>i. too_many_digits i \<longleftrightarrow> 10 ^ 4300 \<le> \<bar>i\<bar>"
    using too_many_digits_int by blast
next
  show "approx_display_len
       \<lparr>cell_value = VFloat (Finite False 2469 (- 1)) ''1234.5'',
        number_format = Some ''0.00'', column = 1\<rparr> = Inr 8"
    by (rule example_two_decimals)
qed

theorem approx_two_decimals_witness:
  "approx_display_len
     \<lparr>cell_value = VInt 1234567, number_format = Some ''#,##0.00'', column = 3\<rparr>
     = Inr (len (spec_grouped_decimals 2 False 1234567))
   \<and> spec_grouped_decimals 2 False 1234567 = ''1,234,567.00''"
proof -
  let ?c = "\<lparr>cell_value = VInt 1234567, number_format = Some ''#,##0.00'', column = 3\<rparr>"
  have n: "is_number (cell_value ?c)" by (simp add: is_number_def)
  have f: "number_format ?c = Some ''#,##0.00''" by simp
  have t: "\<exists>tok \<in> set [''0.00'', ''#,##0.00'', ''0.0'']. sublist tok ''#,##0.00''"
    by (simp add: sublist_code)
  have s: "\<bar>1234567::int\<bar> < 2 ^ 53" by simp
  have v: "cell_value ?c = VInt 1234567" by simp
  note all = approx_two_decimals [of ?c "''#,##0.00''", THEN conjunct1, rule_format, OF n f t]
  note ints = all [THEN conjunct2, THEN conjunct2, THEN conjunct2, THEN conjunct2,
      THEN conjunct1, rule_format, OF v s]
  from ints have a: "approx_display_len ?c = Inr (len (spec_grouped_decimals 2 False 1234567))"
    by simp
  have b: "spec_grouped_decimals 2 False 1234567 = ''1,234,567.00''"
    by (simp add: spec_grouped_decimals_def nearest_even_def sign_str_def
        group_thousands_def zero_pad_def digits_of.simps digit_char_def)
  from a b show ?thesis by blast
qed

text \<open>
  Claim C2, at the value 1234.5 with the format \<open>0.000\<close>: the descriptor contains the
  three-decimal token, and it contains \<open>0.00\<close> and \<open>0.0\<close> as well, so the first branch
  is taken. The result is 8, the length of \<open>1,234.50\<close>, and not 9, the length of
  \<open>1,234.500\<close>.
\<close>

theorem three_decimal_token_gets_two_decimals:
  "approx_display_len
     \<lparr>cell_value = VFloat (Finite False 2469 (- 1)) ''1234.5'',
      number_format = Some ''0.000'', column = 1\<rparr> = Inr 8
   \<and> format_fixed 3 (VFloat (Finite False 2469 (- 1)) ''1234.5'') = Inr ''1,234.500''
   \<and> len ''1,234.500'' = 9"
  using example_three_token example_three_decimals by (simp add: len_def)

text \<open>
  The branch for the three-decimal tokens is never reached: a descriptor with one of
  them has one of the two-decimal tokens.
\<close>

lemma three_decimal_branch_dead:
  assumes "is_number (cell_value c)"
    and "any_tok_in three_decimal_tokens
           (lower (case number_format c of None \<Rightarrow> [] | Some f \<Rightarrow> f))"
  shows "approx_display_len_try c =
           (case format_fixed 2 (cell_value c) of Inl e \<Rightarrow> Inl e | Inr s \<Rightarrow> Inr (len s))"
  using assms three_implies_two [OF assms(2)]
  by (simp add: approx_display_len_try_def)


text \<open>
  Apart from an \<open>int\<close> of more than 4300 decimal digits, \<open>_approx_display_len\<close>
  returns for every cell, whatever the format descriptor (also a missing one), and the
  result is not negative; when the formatting raises, it is the length of \<open>str(v)\<close>.
  For the value \<open>None\<close> it is 0.
\<close>

lemma approx_display_len_total_apart:
  "(cell_value c = VNone \<longrightarrow> approx_display_len c = Inr 0)
   \<and> ((\<forall>i. cell_value c = VInt i \<longrightarrow> \<not> too_many_digits i) \<longrightarrow>
        (\<exists>n. approx_display_len c = Inr n \<and> 0 \<le> n)
        \<and> (cell_value c \<noteq> VNone \<longrightarrow> approx_display_len_try c = Inl e \<longrightarrow>
             (\<exists>s. py_str (cell_value c) = Inr s \<and> approx_display_len c = Inr (len s))))
   \<and> (\<forall>i. cell_value c = VInt i \<longrightarrow> too_many_digits i \<longrightarrow>
         approx_display_len c = Inl ValueError)
   \<and> (\<forall>i. too_many_digits i \<longleftrightarrow> 10 ^ 4300 \<le> \<bar>i\<bar>)"
proof (intro conjI impI)
  assume "cell_value c = VNone"
  then show "approx_display_len c = Inr 0" by (simp add: approx_display_len_def)
next
  assume "\<forall>i. cell_value c = VInt i \<longrightarrow> \<not> too_many_digits i"
  then show "\<exists>n. approx_display_len c = Inr n \<and> 0 \<le> n" by (rule approx_display_len_returns)
next
  assume ok: "\<forall>i. cell_value c = VInt i \<longrightarrow> \<not> too_many_digits i"
    and v: "cell_value c \<noteq> VNone" and t: "approx_display_len_try c = Inl e"
  from len_str_total [OF ok] obtain s where
    s: "py_str (cell_value c) = Inr s" "len_str (cell_value c) = Inr (len s)" by blast
  from v t s(2) have "approx_display_len c = Inr (len s)" by (simp add: approx_display_len_def)
  with s(1) show "\<exists>s. py_str (cell_value c) = Inr s \<and> approx_display_len c = Inr (len s)"
    by blast
next
  show "\<forall>i. cell_value c = VInt i \<longrightarrow> too_many_digits i \<longrightarrow>
      approx_display_len c = Inl ValueError"
    using too_many_digits_raises by blast
next
  show "\<forall>i. too_many_digits i \<longleftrightarrow> 10 ^ 4300 \<le> \<bar>i\<bar>"
    using too_many_digits_int by blast
qed

section \<open>Properties of the column auto-fit\<close>

lemma convertible_iff:
  "convertible c \<longleftrightarrow> (\<forall>i. cell_value c = VInt i \<longrightarrow> \<not> too_many_digits i)"
  by (cases "cell_value c") (simp_all add: convertible_def)

lemma approx_display_len_est: "convertible c \<Longrightarrow> approx_display_len c = Inr (est c)"
proof -
  assume "convertible c"
  then have "\<forall>i. cell_value c = VInt i \<longrightarrow> \<not> too_many_digits i" by (simp only: convertible_iff)
  then obtain n where "approx_display_len c = Inr n" using approx_display_len_returns by blast
  then show ?thesis by (simp add: est_def)
qed

lemma approx_display_len_raises: "\<not> convertible c \<Longrightarrow> approx_display_len c = Inl ValueError"
  using too_many_digits_raises by (auto simp: convertible_iff)

lemma not_convertible_value: "\<not> convertible c \<Longrightarrow> cell_value c \<noteq> VNone"
  by (auto simp: convertible_def)

lemma map_of_dict_set: "map_of (dict_set k v ps) = (map_of ps)(k \<mapsto> v)"
  by (induction ps) auto

lemma keys_dict_set: "fst ` set (dict_set k v ps) = insert k (fst ` set ps)"
proof (induction ps)
  case Nil
  show ?case by simp
next
  case (Cons p ps)
  obtain k' v' where p: "p = (k', v')" by (cases p)
  show ?case
  proof (cases "k' = k")
    case True
    with p show ?thesis by simp
  next
    case False
    with p Cons.IH show ?thesis by auto
  qed
qed

lemma distinct_dict_set:
  "distinct (map fst ps) \<Longrightarrow> distinct (map fst (dict_set k v ps))"
proof (induction ps)
  case Nil
  then show ?case by simp
next
  case (Cons p ps)
  obtain k' v' where p: "p = (k', v')" by (cases p)
  show ?case
  proof (cases "k' = k")
    case True
    with Cons.prems p show ?thesis by simp
  next
    case False
    with Cons p show ?thesis by (simp add: keys_dict_set)
  qed
qed

lemma scan_cell_raises: "\<not> convertible c \<Longrightarrow> scan_cell ls c = Inl ValueError"
  using approx_display_len_raises [of c] not_convertible_value [of c]
  by (simp add: scan_cell_def)

lemma scan_cell_map:
  assumes "convertible c"
  shows "\<exists>ls'. scan_cell ls c = Inr ls'
     \<and> (distinct (map fst ls) \<longrightarrow> distinct (map fst ls'))
     \<and> (\<forall>k. map_of ls' k =
           (if column c = k \<and> cell_value c \<noteq> VNone \<and> 0 < est c
            then merge_len (est c) (map_of ls k) else map_of ls k))"
proof (cases "cell_value c \<noteq> VNone \<and> 0 < est c")
  case False
  then have "scan_cell ls c = Inr ls"
    by (auto simp: scan_cell_def approx_display_len_est [OF assms])
  with False show ?thesis by auto
next
  case True
  show ?thesis
  proof (cases "map_of ls (column c)")
    case None
    with True have "scan_cell ls c = Inr (dict_set (column c) (est c) ls)"
      by (simp add: scan_cell_def approx_display_len_est [OF assms])
    with True None show ?thesis
      by (auto simp: map_of_dict_set merge_len_def distinct_dict_set)
  next
    case (Some L0)
    show ?thesis
    proof (cases "L0 < est c")
      case lt: True
      with True Some have "scan_cell ls c = Inr (dict_set (column c) (est c) ls)"
        by (simp add: scan_cell_def approx_display_len_est [OF assms])
      with True Some lt show ?thesis
        by (auto simp: map_of_dict_set merge_len_def distinct_dict_set)
    next
      case ge: False
      with True Some have "scan_cell ls c = Inr ls"
        by (simp add: scan_cell_def approx_display_len_est [OF assms])
      with True Some ge show ?thesis
        by (auto simp: merge_len_def)
    qed
  qed
qed

lemma column_lengths_Cons:
  "column_lengths (c # cs) k =
     (if column c = k \<and> cell_value c \<noteq> VNone \<and> 0 < est c
      then est c # column_lengths cs k else column_lengths cs k)"
  by (simp add: column_lengths_def)

lemma scan_row_map:
  assumes "\<forall>c \<in> set cs. convertible c"
  shows "\<exists>ls'. scan_row ls cs = Inr ls'
     \<and> (distinct (map fst ls) \<longrightarrow> distinct (map fst ls'))
     \<and> (\<forall>k. map_of ls' k = fold merge_len (column_lengths cs k) (map_of ls k))"
  using assms
proof (induction cs arbitrary: ls)
  case Nil
  show ?case by (simp add: column_lengths_def)
next
  case (Cons c cs)
  from Cons.prems have cc: "convertible c" and rest: "\<forall>c \<in> set cs. convertible c" by simp_all
  from scan_cell_map [OF cc, of ls] obtain l1 where
    s1: "scan_cell ls c = Inr l1"
    and d1: "distinct (map fst ls) \<longrightarrow> distinct (map fst l1)"
    and m1: "\<forall>k. map_of l1 k =
           (if column c = k \<and> cell_value c \<noteq> VNone \<and> 0 < est c
            then merge_len (est c) (map_of ls k) else map_of ls k)" by blast
  from Cons.IH [OF rest, of l1] obtain l2 where
    s2: "scan_row l1 cs = Inr l2"
    and d2: "distinct (map fst l1) \<longrightarrow> distinct (map fst l2)"
    and m2: "\<forall>k. map_of l2 k = fold merge_len (column_lengths cs k) (map_of l1 k)" by blast
  have "scan_row ls (c # cs) = Inr l2" using s1 s2 by simp
  moreover have "distinct (map fst ls) \<longrightarrow> distinct (map fst l2)" using d1 d2 by blast
  moreover have "\<forall>k. map_of l2 k = fold merge_len (column_lengths (c # cs) k) (map_of ls k)"
    using m1 m2 by (simp add: column_lengths_Cons)
  ultimately show ?case by blast
qed

lemma scan_row_raises:
  assumes "\<exists>c \<in> set cs. \<not> convertible c"
  shows "scan_row ls cs = Inl ValueError"
  using assms
proof (induction cs arbitrary: ls)
  case Nil
  then show ?case by simp
next
  case (Cons c cs)
  show ?case
  proof (cases "convertible c")
    case False
    then show ?thesis by (simp add: scan_cell_raises)
  next
    case True
    with Cons.prems have rest: "\<exists>c \<in> set cs. \<not> convertible c" by simp
    from scan_cell_map [OF True, of ls] obtain l1 where "scan_cell ls c = Inr l1" by blast
    with Cons.IH [OF rest, of l1] show ?thesis by simp
  qed
qed



lemma scan_rows_raises:
  assumes "\<exists>c \<in> set (concat rs). \<not> convertible c"
  shows "scan_rows ls rs = Inl ValueError"
  using assms
proof (induction rs arbitrary: ls)
  case Nil
  then show ?case by simp
next
  case (Cons r rs)
  show ?case
  proof (cases "\<forall>c \<in> set r. convertible c")
    case False
    then have "scan_row ls r = Inl ValueError" by (intro scan_row_raises) blast
    then show ?thesis by simp
  next
    case True
    with Cons.prems have rest: "\<exists>c \<in> set (concat rs). \<not> convertible c" by auto
    from scan_row_map [OF True, of ls] obtain l1 where "scan_row ls r = Inr l1" by blast
    with Cons.IH [OF rest, of l1] show ?thesis by simp
  qed
qed





lemma autofit_raises:
  assumes "\<exists>c \<in> set (concat (rows ws)). \<not> convertible c"
  shows "autofit_columns_openpyxl ws mn pd mx = Inl ValueError"
  using scan_rows_raises [OF assms, of "[]"] by (simp add: autofit_columns_openpyxl_def)


lemma prepare_sheet_raises:
  assumes "\<exists>c \<in> set (concat (rows ws)). \<not> convertible c"
  shows "column_dimensions (prepare_sheet landscape fitwide ws) = column_dimensions ws"
  using autofit_raises [OF assms, of 8 2 120] by (simp add: prepare_sheet_def)




text \<open>
  On a worksheet with an \<open>int\<close> of more than 4300 digits the estimate of that cell
  raises, the pass raises before any width is set, and the worksheet that
  \<open>ensure_print_settings\<close> goes on with has the widths it had.
\<close>

lemma autofit_aborts:
  "(\<exists>c \<in> set (concat (rows ws)). \<not> convertible c) \<longrightarrow>
     autofit_columns_openpyxl ws mn pd mx = Inl ValueError
     \<and> column_dimensions (prepare_sheet landscape fitwide ws) = column_dimensions ws"
  using autofit_raises [of ws mn pd mx] prepare_sheet_raises [of ws landscape fitwide]
  by blast








section \<open>Properties of the preparation and of \<open>convert_one\<close>\<close>

lemma rfind_dot_is_dot:
  assumes "0 \<le> rfind_dot nm"
  shows "nat (rfind_dot nm) < length nm \<and> nm ! nat (rfind_dot nm) = CHR ''.''"
proof -
  let ?P = "\<lambda>c. c \<noteq> CHR ''.''"
  let ?k = "length (takeWhile ?P (rev nm))"
  from assms have dot: "CHR ''.'' \<in> set nm"
    by (auto simp: rfind_dot_def split: if_splits)
  then have "takeWhile ?P (rev nm) \<noteq> rev nm"
    by (simp add: takeWhile_eq_all_conv)
  moreover have "?k \<le> length (rev nm)" by (rule length_takeWhile_le)
  ultimately have k: "?k < length (rev nm)"
    by (metis le_neq_implies_less takeWhile_eq_take take_all order_refl)
  then have "\<not> ?P (rev nm ! ?k)" by (rule nth_length_takeWhile)
  then have "rev nm ! ?k = CHR ''.''" by simp
  moreover from k have "rev nm ! ?k = nm ! (length nm - Suc ?k)"
    by (simp add: rev_nth)
  ultimately have d: "nm ! (length nm - Suc ?k) = CHR ''.''" by simp
  from dot k have i: "nat (rfind_dot nm) = length nm - Suc ?k"
    by (simp add: rfind_dot_def)
  from k have "length nm - Suc ?k < length nm" by simp
  with d i show ?thesis by simp
qed

lemma stem_suffix_differs: "stem nm @ ''_print_ready.xlsx'' \<noteq> nm"
proof (cases "0 < rfind_dot nm \<and> rfind_dot nm < int (length nm) - 1")
  case False
  then have "stem nm = nm" by (auto simp: stem_def Let_def)
  then show ?thesis by simp
next
  case True
  let ?n = "nat (rfind_dot nm)"
  from True have s: "stem nm = take ?n nm" by (simp add: stem_def Let_def)
  from True have "0 \<le> rfind_dot nm" by simp
  then have n: "?n < length nm" and d: "nm ! ?n = CHR ''.''"
    using rfind_dot_is_dot by blast+
  show ?thesis
  proof
    assume eq: "stem nm @ ''_print_ready.xlsx'' = nm"
    have "(take ?n nm @ ''_print_ready.xlsx'') ! ?n = CHR ''_''"
      using n by (simp add: nth_append)
    with eq s have "nm ! ?n = CHR ''_''" by simp
    with d show False by simp
  qed
qed

lemma print_ready_path_differs: "print_ready_path tmpdir p \<noteq> p"
proof
  assume "print_ready_path tmpdir p = p"
  then have "filename (print_ready_path tmpdir p) = filename p" by simp
  then have "stem (filename p) @ ''_print_ready.xlsx'' = filename p"
    by (simp add: print_ready_path_def)
  with stem_suffix_differs show False by blast
qed

lemma stem_book: "stem ''book.xlsx'' = ''book''"
  by (simp add: stem_def rfind_dot_def)

lemma resolve_numeral:
  "resolve (numeral k) fl p =
     (case fl p of Some (Symlink q) \<Rightarrow> resolve (pred_numeral k) fl q | _ \<Rightarrow> Some p)"
  by (simp add: numeral_eq_Suc)

lemma resolve_regular:
  "(\<forall>q. fl p \<noteq> Some (Symlink q)) \<Longrightarrow> resolve (Suc n) fl p = Some p"
  by (auto split: option.splits node.splits)

text \<open>
  When no symbolic link stands at the print-ready path, the input file is what it was,
  whether the call returns or raises.
\<close>

lemma ensure_print_settings_frame:
  assumes "\<forall>q. files fs (print_ready_path tmpdir p) \<noteq> Some (Symlink q)"
  shows "files (snd (ensure_print_settings fs tmpdir p landscape fitwide)) p = files fs p"
proof (cases "load_workbook fs p")
  case (Inl e)
  then show ?thesis by (simp add: ensure_print_settings_def)
next
  case (Inr wb)
  then have ex: "files fs p \<noteq> None"
    by (auto simp: load_workbook_def split: option.splits node.splits content.splits
        elim!: resolve.elims)
  have r: "resolve 41 (files fs) (print_ready_path tmpdir p) = Some (print_ready_path tmpdir p)"
    using resolve_regular [of "files fs" "print_ready_path tmpdir p" 40, OF assms] by simp
  have ne: "print_ready_path tmpdir p \<noteq> p" by (rule print_ready_path_differs)
  show ?thesis
    using Inr r ne ex
    by (cases "on_save fs")
       (auto simp: ensure_print_settings_def save_workbook_def Let_def)
qed

text \<open>
  Claim C7, at an input \<open>/data/book.xlsx\<close> when \<open>/tmp/book_print_ready.xlsx\<close> is a
  symbolic link to it: the call returns the print-ready path, and \<open>wb.save\<close> has written
  the prepared workbook through the link into the input file, which is no longer what
  it was.
\<close>

theorem ensure_print_settings_overwrites_through_link:
  "fst (ensure_print_settings
      \<lparr>files = [\<lparr>parent = ''/data'', filename = ''book.xlsx''\<rparr> \<mapsto>
                  Regular (Workbook
                    [\<lparr>rows = [], column_dimensions = Map.empty, gridLines = False,
                      headings = False, fitToWidth = 1, fitToHeight = 1,
                      orientation = None\<rparr>]),
                \<lparr>parent = ''/tmp'', filename = ''book_print_ready.xlsx''\<rparr> \<mapsto>
                  Symlink \<lparr>parent = ''/data'', filename = ''book.xlsx''\<rparr>],
       on_save = SaveEnds\<rparr>
      ''/tmp'' \<lparr>parent = ''/data'', filename = ''book.xlsx''\<rparr> True 1)
     = Inr \<lparr>parent = ''/tmp'', filename = ''book_print_ready.xlsx''\<rparr>
   \<and> files (snd (ensure_print_settings
      \<lparr>files = [\<lparr>parent = ''/data'', filename = ''book.xlsx''\<rparr> \<mapsto>
                  Regular (Workbook
                    [\<lparr>rows = [], column_dimensions = Map.empty, gridLines = False,
                      headings = False, fitToWidth = 1, fitToHeight = 1,
                      orientation = None\<rparr>]),
                \<lparr>parent = ''/tmp'', filename = ''book_print_ready.xlsx''\<rparr> \<mapsto>
                  Symlink \<lparr>parent = ''/data'', filename = ''book.xlsx''\<rparr>],
       on_save = SaveEnds\<rparr>
      ''/tmp'' \<lparr>parent = ''/data'', filename = ''book.xlsx''\<rparr> True 1))
      \<lparr>parent = ''/data'', filename = ''book.xlsx''\<rparr>
     = Some (Regular (Workbook
         [\<lparr>rows = [], column_dimensions = Map.empty, gridLines = True,
           headings = True, fitToWidth = 1, fitToHeight = 0,
           orientation = Some ''landscape''\<rparr>]))"
  by (simp add: ensure_print_settings_def load_workbook_def save_workbook_def
      print_ready_path_def stem_book Let_def prepare_sheet_def
      autofit_columns_openpyxl_def resolve_numeral)

text \<open>
  Claim C4, as stated, at a legacy \<open>.xls\<close> file, which \<open>load_workbook\<close> refuses, in a world
  where both exporters would succeed: \<open>convert_one\<close> raises while preparing, and no
  exporter is tried.
\<close>

theorem convert_one_counterexample:
  "convert_one
      \<lparr>excel = (\<lambda>x y. XlExported), libreoffice = (\<lambda>x y. LoEnds True)\<rparr>
      \<lparr>files = [\<lparr>parent = ''/data'', filename = ''old.xls''\<rparr> \<mapsto> Regular Unreadable],
       on_save = SaveEnds\<rparr>
      ''/tmp'' \<lparr>parent = ''/data'', filename = ''old.xls''\<rparr>
      \<lparr>parent = ''/data'', filename = ''old.pdf''\<rparr> False 1
     = (Inl InvalidFile, [Prepare])
   \<and> try_export_with_excel_via_xlwings
       \<lparr>excel = (\<lambda>x y. XlExported), libreoffice = (\<lambda>x y. LoEnds True)\<rparr>
       \<lparr>parent = ''/tmp'', filename = ''old_print_ready.xlsx''\<rparr>
       \<lparr>parent = ''/data'', filename = ''old.pdf''\<rparr>
   \<and> try_export_with_libreoffice
       \<lparr>excel = (\<lambda>x y. XlExported), libreoffice = (\<lambda>x y. LoEnds True)\<rparr>
       \<lparr>parent = ''/tmp'', filename = ''old_print_ready.xlsx''\<rparr>
       \<lparr>parent = ''/data'', filename = ''old.pdf''\<rparr>"
  by (simp add: convert_one_def ensure_print_settings_def load_workbook_def resolve_numeral
      try_export_with_excel_via_xlwings_def try_export_with_libreoffice_def)

text \<open>
  Claim C4, amended. \<open>convert_one\<close> prepares the working copy first. When the preparation
  raises, \<open>convert_one\<close> raises the same error and tries no exporter. Otherwise it tries
  xlwings on the prepared file; it tries LibreOffice if and only if xlwings reported
  failure; and it raises if and only if both reported failure.
\<close>

theorem convert_one_fallback:
  "hd (snd (convert_one w fs tmpdir xlsx out_pdf landscape fitwide)) = Prepare
   \<and> (\<forall>e. fst (ensure_print_settings fs tmpdir xlsx landscape fitwide) = Inl e \<longrightarrow>
         convert_one w fs tmpdir xlsx out_pdf landscape fitwide = (Inl e, [Prepare]))
   \<and> (\<forall>q. fst (ensure_print_settings fs tmpdir xlsx landscape fitwide) = Inr q \<longrightarrow>
         snd (convert_one w fs tmpdir xlsx out_pdf landscape fitwide) =
           (if try_export_with_excel_via_xlwings w q out_pdf
            then [Prepare, RendererA q] else [Prepare, RendererA q, RendererB q])
         \<and> (RendererB q \<in> set (snd (convert_one w fs tmpdir xlsx out_pdf landscape fitwide))
              \<longleftrightarrow> \<not> try_export_with_excel_via_xlwings w q out_pdf)
         \<and> (isl (fst (convert_one w fs tmpdir xlsx out_pdf landscape fitwide))
              \<longleftrightarrow> \<not> try_export_with_excel_via_xlwings w q out_pdf
                   \<and> \<not> try_export_with_libreoffice w q out_pdf)
         \<and> (isl (fst (convert_one w fs tmpdir xlsx out_pdf landscape fitwide)) \<longrightarrow>
              fst (convert_one w fs tmpdir xlsx out_pdf landscape fitwide) = Inl RuntimeError))"
  by (cases "fst (ensure_print_settings fs tmpdir xlsx landscape fitwide)")
     (simp_all add: convert_one_def)

theorem convert_one_fallback_witness:
  "convert_one
      \<lparr>excel = (\<lambda>x y. XlImportFails), libreoffice = (\<lambda>x y. LoEnds True)\<rparr>
      \<lparr>files = [\<lparr>parent = ''/data'', filename = ''book.xlsx''\<rparr> \<mapsto> Regular (Workbook [])],
       on_save = SaveEnds\<rparr>
      ''/tmp'' \<lparr>parent = ''/data'', filename = ''book.xlsx''\<rparr>
      \<lparr>parent = ''/data'', filename = ''book.pdf''\<rparr> True 1
     = (Inr (),
        [Prepare,
         RendererA \<lparr>parent = ''/tmp'', filename = ''book_print_ready.xlsx''\<rparr>,
         RendererB \<lparr>parent = ''/tmp'', filename = ''book_print_ready.xlsx''\<rparr>])"
proof -
  let ?p = "\<lparr>parent = ''/data'', filename = ''book.xlsx''\<rparr>"
  let ?o = "\<lparr>parent = ''/data'', filename = ''book.pdf''\<rparr>"
  let ?t = "\<lparr>parent = ''/tmp'', filename = ''book_print_ready.xlsx''\<rparr>"
  let ?fs = "\<lparr>files = [?p \<mapsto> Regular (Workbook [])], on_save = SaveEnds\<rparr>"
  let ?w = "\<lparr>excel = (\<lambda>x y. XlImportFails), libreoffice = (\<lambda>x y. LoEnds True)\<rparr>"
  let ?C = "convert_one ?w ?fs ''/tmp'' ?p ?o True 1"
  have r: "fst (ensure_print_settings ?fs ''/tmp'' ?p True 1) = Inr ?t"
    by (simp add: ensure_print_settings_def load_workbook_def resolve_numeral save_workbook_def
        print_ready_path_def stem_book Let_def)
  have a: "\<not> try_export_with_excel_via_xlwings ?w ?t ?o"
    by (simp add: try_export_with_excel_via_xlwings_def)
  have b: "try_export_with_libreoffice ?w ?t ?o"
    by (simp add: try_export_with_libreoffice_def)
  note th = convert_one_fallback [of ?w ?fs "''/tmp''" ?p ?o True 1,
      THEN conjunct2, THEN conjunct2, rule_format, OF r]
  from th a have tr: "snd ?C = [Prepare, RendererA ?t, RendererB ?t]" by simp
  from th a b have "\<not> isl (fst ?C)" by blast
  then have "fst ?C = Inr ()" by (cases "fst ?C") simp_all
  with tr show ?thesis by (cases ?C) simp
qed

section \<open>Properties of the per-sheet export\<close>







end
